theory Spec2Isabelle
  imports Complex_Main "HOL-Library.Word" "HOL-Library.FSet"
begin

section \<open>Flashcard scheduling core: data model\<close>

text \<open>
  The module \<^verbatim>\<open>src/algorithm.ts\<close> imports \<^verbatim>\<open>Flashcard\<close>, \<^verbatim>\<open>AnswerDifficulty\<close> and
  \<^verbatim>\<open>BucketMap\<close> from \<^verbatim>\<open>./flashcards\<close>. A JavaScript string is a sequence of 16-bit
  code units; \<^verbatim>\<open>length\<close>, \<^verbatim>\<open>substring\<close>, \<^verbatim>\<open>repeat\<close> and \<^verbatim>\<open>trim\<close> all work on code units.
\<close>

type_synonym jsstring = "16 word list"

definition lit :: "string \<Rightarrow> jsstring" where
  "lit s = map (\<lambda>c. of_nat (of_char c)) s"

text \<open>
  Modelled from the spec: the class \<^verbatim>\<open>Flashcard\<close> of \<^verbatim>\<open>flashcards.ts\<close>, an
  identity-bearing record with \<^verbatim>\<open>front\<close>, \<^verbatim>\<open>back\<close>, an optional \<^verbatim>\<open>hint\<close> and tags
  (\<open>back\<close> is a reserved word here, so that field is \<open>backText\<close>).
  The field \<open>ident\<close> stands for the object identity by which \<^verbatim>\<open>Set\<close> and \<^verbatim>\<open>Map\<close>
  compare cards; \<open>hint = None\<close> is an absent (\<^verbatim>\<open>undefined\<close>) hint.
\<close>

record Flashcard =
  ident :: nat
  front :: jsstring
  backText :: jsstring
  hint :: "jsstring option"
  tags :: "jsstring list"

text \<open>
  Modelled from the spec: the enumeration \<^verbatim>\<open>AnswerDifficulty\<close> of \<^verbatim>\<open>flashcards.ts\<close>,
  one of the three outcomes of a review.
\<close>

datatype AnswerDifficulty = Wrong | Hard | Easy

datatype js_error = RangeError | TypeError

section \<open>String primitives used by \<^verbatim>\<open>getHint\<close>\<close>

text \<open>
  \<^verbatim>\<open>String.prototype.trim\<close> strips the code units of the ECMAScript productions
  WhiteSpace and LineTerminator from both ends.
\<close>

definition isWhiteSpace :: "16 word \<Rightarrow> bool" where
  "isWhiteSpace u \<longleftrightarrow>
     u \<in> set [0x0009, 0x000A, 0x000B, 0x000C, 0x000D, 0x0020, 0x00A0, 0x1680,
              0x2000, 0x2001, 0x2002, 0x2003, 0x2004, 0x2005, 0x2006, 0x2007,
              0x2008, 0x2009, 0x200A, 0x2028, 0x2029, 0x202F, 0x205F, 0x3000, 0xFEFF]"

definition trim :: "jsstring \<Rightarrow> jsstring" where
  "trim s = rev (dropWhile isWhiteSpace (rev (dropWhile isWhiteSpace s)))"

text \<open>\<^verbatim>\<open>s.substring(0, n)\<close> for \<open>n \<ge> 0\<close>: the first \<open>n\<close> code units, all of \<open>s\<close> when it is shorter.\<close>

definition substring0 :: "jsstring \<Rightarrow> nat \<Rightarrow> jsstring" where
  "substring0 s n = take n s"

text \<open>\<^verbatim>\<open>s.repeat(count)\<close> throws a \<^verbatim>\<open>RangeError\<close> when \<open>count\<close> is negative.\<close>

definition repeat :: "jsstring \<Rightarrow> int \<Rightarrow> js_error + jsstring" where
  "repeat s count =
     (if count < 0 then Inl RangeError else Inr (concat (replicate (nat count) s)))"

section \<open>\<^verbatim>\<open>getHint\<close>\<close>

text \<open>
  \<^verbatim>\<open>card.hint && card.hint.trim().length > 0\<close>: an absent hint and the empty string are
  falsy, so \<^verbatim>\<open>trim\<close> is only reached for a non-empty hint.
\<close>

definition hasHint :: "Flashcard \<Rightarrow> bool" where
  "hasHint card' \<longleftrightarrow>
     (case hint card' of None \<Rightarrow> False | Some h \<Rightarrow> h \<noteq> [] \<and> length (trim h) > 0)"

definition getHint :: "Flashcard \<Rightarrow> js_error + jsstring" where
  "getHint card' =
     (if hasHint card' then Inr (the (hint card'))
      else
        let frontText = front card' in
        if length frontText \<le> 3
        then (case repeat (lit ''*'') (int (length frontText) - 1) of
                Inl e \<Rightarrow> Inl e
              | Inr stars \<Rightarrow> Inr (substring0 frontText 1 @ stars))
        else (case repeat (lit ''*'') (int (length frontText) - 3) of
                Inl e \<Rightarrow> Inl e
              | Inr stars \<Rightarrow> Inr (substring0 frontText 3 @ stars)))"

section \<open>Containers\<close>

text \<open>
  Modelled from the spec: the type \<^verbatim>\<open>BucketMap\<close> of \<^verbatim>\<open>flashcards.ts\<close>, a mapping from
  bucket number to a set of flashcards; the tests build it as a
  \<^verbatim>\<open>Map<number, Set<Flashcard>>\<close>.

  A JavaScript \<^verbatim>\<open>Map\<close> keeps its entries in insertion order and its keys unique; it is
  an association list whose keys are distinct (\<open>Map_wf\<close>). Bucket numbers are JavaScript
  numbers holding integers, hence \<open>int\<close>. A \<^verbatim>\<open>Set<Flashcard>\<close> is a finite set of cards.
\<close>

type_synonym BucketMap = "(int \<times> Flashcard fset) list"

definition Map_wf :: "(int \<times> 'v) list \<Rightarrow> bool" where
  "Map_wf m \<longleftrightarrow> distinct (map fst m)"

definition Map_has :: "(int \<times> 'v) list \<Rightarrow> int \<Rightarrow> bool" where
  "Map_has m k \<longleftrightarrow> k \<in> set (map fst m)"

definition Map_get :: "(int \<times> 'v) list \<Rightarrow> int \<Rightarrow> 'v option" where
  "Map_get m k = map_of m k"

text \<open>\<^verbatim>\<open>m.set(k, v)\<close> replaces the value of an existing key in place and appends a new key.\<close>

fun Map_set :: "(int \<times> 'v) list \<Rightarrow> int \<Rightarrow> 'v \<Rightarrow> (int \<times> 'v) list" where
  "Map_set [] k v = [(k, v)]"
| "Map_set ((k', v') # m) k v = (if k' = k then (k, v) # m else (k', v') # Map_set m k v)"

section \<open>\<^verbatim>\<open>toBucketSets\<close>\<close>

text \<open>
  \<^verbatim>\<open>Math.max(...keys, 0)\<close> is one call whose arguments are all the keys and \<open>0\<close>. Its
  value is the largest of the keys and \<open>0\<close>.
\<close>

definition maxBucketNumber :: "(int \<times> 'v) list \<Rightarrow> int" where
  "maxBucketNumber buckets = fold max (map fst buckets) 0"

text \<open>
  An engine takes only so many arguments in one call and throws a \<^verbatim>\<open>RangeError\<close> when
  a spread passes more. The language does not fix that number, so it is the parameter
  \<open>argLimit\<close> of the model: the call with the \<open>length buckets + 1\<close> arguments raises when
  these are more than \<open>argLimit\<close>.
\<close>

definition Math_max_keys :: "nat \<Rightarrow> (int \<times> 'v) list \<Rightarrow> js_error + int" where
  "Math_max_keys argLimit buckets =
     (if argLimit < length buckets + 1 then Inl RangeError
      else Inr (maxBucketNumber buckets))"

text \<open>
  \<^verbatim>\<open>Array(n)\<close> for an integer \<open>n\<close> makes an array of length \<open>n\<close>, and throws a
  \<^verbatim>\<open>RangeError\<close> (invalid array length) unless \<open>0 \<le> n \<le> 2 ^ 32 - 1\<close>.
\<close>

definition maxArrayLength :: int where
  "maxArrayLength = 2 ^ 32 - 1"

definition Array_length :: "int \<Rightarrow> js_error + nat" where
  "Array_length n =
     (if n < 0 \<or> maxArrayLength < n then Inl RangeError else Inr (nat n))"

text \<open>
  \<^verbatim>\<open>bucketSets[index] = v\<close>. An index beyond the end would extend the array, but every
  index written by \<^verbatim>\<open>toBucketSets\<close> is at most \<open>maxBucketNumber\<close> (lemma
  \<open>key_le_maxBucketNumber\<close>) and so lies inside the array of \<open>maxBucketNumber + 1\<close>
  elements. A negative index names a property of the array object that is not an
  element: the elements and the length stay as they are.
\<close>

definition Array_set :: "'a list \<Rightarrow> int \<Rightarrow> 'a \<Rightarrow> 'a list" where
  "Array_set a index v = (if 0 \<le> index then a[nat index := v] else a)"

text \<open>The callback of the loop that puts a copy of every bucket at its index.\<close>

definition putBucket :: "int \<times> 'a \<Rightarrow> 'a list \<Rightarrow> 'a list" where
  "putBucket = (\<lambda>(bucketNumber, cardSet) bucketSets. Array_set bucketSets bucketNumber cardSet)"

text \<open>
  \<^verbatim>\<open>toBucketSets\<close>: the test of \<^verbatim>\<open>buckets.size\<close>, the highest bucket number, the array
  of that many plus one new empty sets (\<^verbatim>\<open>Array(n).fill(null).map(() => new Set())\<close>),
  and the loop. Either of the two calls before the loop can raise.
\<close>

definition toBucketSets :: "nat \<Rightarrow> BucketMap \<Rightarrow> js_error + Flashcard fset list" where
  "toBucketSets argLimit buckets =
     (if length buckets = 0 then Inr []
      else
        case Math_max_keys argLimit buckets of
          Inl e \<Rightarrow> Inl e
        | Inr highest \<Rightarrow>
            (case Array_length (highest + 1) of
               Inl e \<Rightarrow> Inl e
             | Inr n \<Rightarrow> Inr (fold putBucket buckets (replicate n {||}))))"

text \<open>
  The declared parameter type of \<^verbatim>\<open>toBucketSets\<close> is \<^verbatim>\<open>BucketMap\<close>; its result is an
  \<^verbatim>\<open>Array\<close>. To hand the result back to the function it is read as the map from
  every index to the set at that index (\<^verbatim>\<open>new Map(dense.entries())\<close>); \<open>entries\<close> is
  that map.
\<close>

definition entries :: "'a list \<Rightarrow> (int \<times> 'a) list" where
  "entries dense = zip (map int [0..<length dense]) dense"

subsection \<open>\<^verbatim>\<open>toBucketSets\<close> on a store of set objects\<close>

text \<open>
  Whether the sets of the result are independent of the sets of the input is a question
  about object identity, so there is a second model in which a \<^verbatim>\<open>Set\<close> is an object in
  a store. The store is the list of all set objects allocated so far, a reference is a
  position in it, and \<^verbatim>\<open>new Set(...)\<close> appends an object. A map and an array hold
  references, and every reference they hold is a position of the store. Cards are
  immutable and are shared.
\<close>

type_synonym ref = nat
type_synonym store = "Flashcard fset list"

definition new_Set :: "Flashcard fset \<Rightarrow> store \<Rightarrow> ref \<times> store" where
  "new_Set cards h = (length h, h @ [cards])"

text \<open>\<^verbatim>\<open>Array(n).fill(null).map(() => new Set())\<close>: \<open>n\<close> new empty sets, in order.\<close>

fun newSets :: "nat \<Rightarrow> store \<Rightarrow> ref list \<times> store" where
  "newSets 0 h = ([], h)"
| "newSets (Suc n) h =
     (let (r, h') = new_Set {||} h; (rs, h'') = newSets n h' in (r # rs, h''))"

text \<open>
  The callback of the loop: \<^verbatim>\<open>bucketSets[index] = new Set(Array.from(cardSet))\<close> reads the
  elements of the object \<open>cardSet\<close> and stores a reference to a new object with these
  elements.
\<close>

definition copyInto :: "int \<times> ref \<Rightarrow> ref list \<times> store \<Rightarrow> ref list \<times> store" where
  "copyInto = (\<lambda>(bucketNumber, cardSet) (bucketSets, h).
      let (r, h') = new_Set (h ! cardSet) h in (Array_set bucketSets bucketNumber r, h'))"

definition toBucketSets_store ::
  "nat \<Rightarrow> (int \<times> ref) list \<Rightarrow> store \<Rightarrow> js_error + (ref list \<times> store)" where
  "toBucketSets_store argLimit buckets h =
     (if length buckets = 0 then Inr ([], h)
      else
        case Math_max_keys argLimit buckets of
          Inl e \<Rightarrow> Inl e
        | Inr highest \<Rightarrow>
            (case Array_length (highest + 1) of
               Inl e \<Rightarrow> Inl e
             | Inr n \<Rightarrow> Inr (fold copyInto buckets (newSets n h))))"

text \<open>The sparse assignment that a map of references stands for in a store.\<close>

definition deref :: "store \<Rightarrow> (int \<times> ref) list \<Rightarrow> BucketMap" where
  "deref h buckets = map (\<lambda>(bucketNumber, cardSet). (bucketNumber, h ! cardSet)) buckets"

section \<open>\<^verbatim>\<open>practice\<close>\<close>

text \<open>
  The remainder operator \<^verbatim>\<open>%\<close> truncates towards zero: the result has the sign of the
  dividend. \<^verbatim>\<open>Math.pow(2, index)\<close> is never zero. On integers the double-precision
  remainder is exact, and beyond the largest power of two a double can hold
  \<^verbatim>\<open>day % Infinity\<close> is \<^verbatim>\<open>day\<close>, as is the remainder by the exact power here.
\<close>

definition js_rem :: "int \<Rightarrow> int \<Rightarrow> int" where
  "js_rem a b = sgn a * (\<bar>a\<bar> mod \<bar>b\<bar>)"

text \<open>The callback of \<^verbatim>\<open>buckets.forEach\<close>, applied to every index and its bucket in turn.\<close>

definition practiceStep ::
  "int \<Rightarrow> nat \<times> Flashcard fset \<Rightarrow> Flashcard fset \<Rightarrow> Flashcard fset" where
  "practiceStep day = (\<lambda>(index, bucket) cardsToStudy.
             if fcard bucket > 0
             then (if js_rem day (2 ^ index) = 0 then cardsToStudy |\<union>| bucket
                   else cardsToStudy)
             else cardsToStudy)"

definition practice :: "Flashcard fset list \<Rightarrow> int \<Rightarrow> Flashcard fset" where
  "practice buckets day = fold (practiceStep day) (enumerate 0 buckets) {||}"

section \<open>\<^verbatim>\<open>update\<close>\<close>

text \<open>The first loop: every bucket is copied into a new map under the same key.\<close>

definition copyBuckets :: "BucketMap \<Rightarrow> BucketMap" where
  "copyBuckets buckets =
     fold (\<lambda>(bucket, cards) newBuckets. Map_set newBuckets bucket cards) buckets []"

text \<open>
  The second loop runs over the input map. In every bucket that holds the card it
  records the bucket number and deletes the card from the copy of that bucket;
  \<^verbatim>\<open>newBuckets.get(bucketNum)!\<close> would raise a \<^verbatim>\<open>TypeError\<close> on a missing key.
\<close>

fun findAndRemove ::
  "BucketMap \<Rightarrow> Flashcard \<Rightarrow> int \<times> BucketMap \<Rightarrow> js_error + (int \<times> BucketMap)" where
  "findAndRemove [] card' st = Inr st"
| "findAndRemove ((bucket, cards) # rest) card' (currentBucketNum, newBuckets) =
     (if card' |\<in>| cards
      then (case Map_get newBuckets bucket of
              None \<Rightarrow> Inl TypeError
            | Some s \<Rightarrow>
                findAndRemove rest card' (bucket, Map_set newBuckets bucket (s |-| {|card'|})))
      else findAndRemove rest card' (currentBucketNum, newBuckets))"

definition targetBucket :: "int \<Rightarrow> AnswerDifficulty \<Rightarrow> int" where
  "targetBucket currentBucketNum difficulty =
     (if difficulty = Easy then min (currentBucketNum + 2) 7
      else if difficulty = Hard then min (currentBucketNum + 1) 7
      else 0)"

definition update :: "BucketMap \<Rightarrow> Flashcard \<Rightarrow> AnswerDifficulty \<Rightarrow> js_error + BucketMap" where
  "update buckets card' difficulty =
     (case findAndRemove buckets card' (- 1, copyBuckets buckets) of
        Inl e \<Rightarrow> Inl e
      | Inr (currentBucketNum, newBuckets) \<Rightarrow>
          let target = targetBucket currentBucketNum difficulty;
              newBuckets' = (if \<not> Map_has newBuckets target
                             then Map_set newBuckets target {||} else newBuckets)
          in (case Map_get newBuckets' target of
                None \<Rightarrow> Inl TypeError
              | Some s \<Rightarrow> Inr (Map_set newBuckets' target (finsert card' s))))"

text \<open>
  The bucket numbers, in map order, of the buckets whose set has the card
  (\<^verbatim>\<open>cards.has(card)\<close>). A card sits in exactly one bucket \<open>s\<close> when this list is \<open>[s]\<close>,
  and in none when it is empty.
\<close>

definition bucketsHolding :: "BucketMap \<Rightarrow> Flashcard \<Rightarrow> int list" where
  "bucketsHolding buckets card' = map fst (filter (\<lambda>(bucket, cards). card' |\<in>| cards) buckets)"

section \<open>\<^verbatim>\<open>computeProgress\<close>\<close>

text \<open>
  The percentage is computed by the source in double precision; the model computes
  the same quotient and product exactly, over the reals.
\<close>

record StageEntry =
  stage :: jsstring
  cardCount :: nat
  percentage :: real

record ProgressData =
  totalCards :: nat
  stageBreakdown :: "StageEntry list"

record StageDef =
  name :: jsstring
  minBucket :: int
  maxBucket :: int

definition stages :: "StageDef list" where
  "stages =
     [\<lparr>name = lit ''Beginner'', minBucket = 0, maxBucket = 1\<rparr>,
      \<lparr>name = lit ''Intermediate'', minBucket = 2, maxBucket = 4\<rparr>,
      \<lparr>name = lit ''Advanced'', minBucket = 5, maxBucket = 7\<rparr>]"

definition countTotal :: "BucketMap \<Rightarrow> nat" where
  "countTotal buckets =
     fold (\<lambda>(bucketKey, cardSet) totalCards. totalCards + fcard cardSet) buckets 0"

definition countStage :: "BucketMap \<Rightarrow> StageDef \<Rightarrow> nat" where
  "countStage buckets st =
     fold (\<lambda>(bucketNum, cards) stageCards.
             if bucketNum \<ge> minBucket st \<and> bucketNum \<le> maxBucket st
             then stageCards + fcard cards else stageCards)
       buckets 0"

definition computeProgress ::
  "BucketMap \<Rightarrow> (Flashcard \<times> AnswerDifficulty list) list \<Rightarrow> ProgressData" where
  "computeProgress buckets history =
     (let total = countTotal buckets;
          breakdown = map (\<lambda>st.
             let stageCards = countStage buckets st
             in \<lparr>stage = name st, cardCount = stageCards,
                 percentage = (if total > 0 then (real stageCards / real total) * 100 else 0)\<rparr>)
            stages
      in \<lparr>totalCards = total, stageBreakdown = breakdown\<rparr>)"

text \<open>The number of cards in bucket \<open>k\<close>; a bucket number without an entry has none.\<close>

definition bucketSize :: "BucketMap \<Rightarrow> int \<Rightarrow> nat" where
  "bucketSize buckets k = (case Map_get buckets k of None \<Rightarrow> 0 | Some cards \<Rightarrow> fcard cards)"

section \<open>Example values\<close>

text \<open>The cards and maps of the repository's test suite, and two cards with an empty front.\<close>

definition cardHi :: Flashcard where
  "cardHi = \<lparr>ident = 1, front = lit ''Hi'', backText = lit ''Hello'',
     hint = Some [], tags = []\<rparr>"

definition cardPython :: Flashcard where
  "cardPython = \<lparr>ident = 2, front = lit ''Python Programming'',
     backText = lit ''A coding language'', hint = Some [], tags = []\<rparr>"

definition cardEmpty :: Flashcard where
  "cardEmpty = \<lparr>ident = 3, front = [], backText = lit ''A'', hint = Some [], tags = []\<rparr>"

definition cardBlank :: Flashcard where
  "cardBlank = \<lparr>ident = 4, front = [], backText = lit ''A'',
     hint = Some (lit ''  ''), tags = []\<rparr>"

definition cardQ1 :: Flashcard where
  "cardQ1 = \<lparr>ident = 5, front = lit ''Q1'', backText = lit ''A1'', hint = Some [], tags = []\<rparr>"

definition cardQ2 :: Flashcard where
  "cardQ2 = \<lparr>ident = 6, front = lit ''Q2'', backText = lit ''A2'', hint = Some [], tags = []\<rparr>"

definition highBuckets :: BucketMap where
  "highBuckets = [(6, {|cardQ1|})]"

definition denseExample :: "Flashcard fset list" where
  "denseExample = [{||}, {|cardQ1|}, {|cardQ2|}]"

definition progressExample :: BucketMap where
  "progressExample = [(0, {|cardQ1|}), (2, {|cardQ2|}), (6, {|cardHi|})]"

definition sparseExample :: BucketMap where
  "sparseExample = [(0, {|cardQ1|}), (2, {|cardQ2|})]"

text \<open>The same sparse assignment as a map of references into a store of two sets.\<close>

definition storeExample :: store where
  "storeExample = [{|cardQ1|}, {|cardQ2|}]"

definition refsExample :: "(int \<times> ref) list" where
  "refsExample = [(0, 0), (2, 1)]"

section \<open>Properties of \<^verbatim>\<open>getHint\<close>\<close>

lemma trim_Nil_iff: "trim s = [] \<longleftrightarrow> (\<forall>u\<in>set s. isWhiteSpace u)"
proof
  assume "trim s = []"
  then have a: "\<forall>u\<in>set (dropWhile isWhiteSpace s). isWhiteSpace u"
    by (simp add: trim_def dropWhile_eq_Nil_conv)
  show "\<forall>u\<in>set s. isWhiteSpace u"
  proof (rule ccontr)
    assume "\<not> (\<forall>u\<in>set s. isWhiteSpace u)"
    then have ne: "dropWhile isWhiteSpace s \<noteq> []"
      by (simp add: dropWhile_eq_Nil_conv)
    then have "\<not> isWhiteSpace (hd (dropWhile isWhiteSpace s))"
      by (rule hd_dropWhile)
    moreover have "hd (dropWhile isWhiteSpace s) \<in> set (dropWhile isWhiteSpace s)"
      using ne by simp
    ultimately show False using a by blast
  qed
next
  assume "\<forall>u\<in>set s. isWhiteSpace u"
  then have d: "dropWhile isWhiteSpace s = []"
    by (simp add: dropWhile_eq_Nil_conv)
  show "trim s = []" unfolding trim_def d by simp
qed

lemma hasHint_iff:
  "hasHint c \<longleftrightarrow> (\<exists>h. hint c = Some h \<and> h \<noteq> [] \<and> (\<exists>u\<in>set h. \<not> isWhiteSpace u))"
  by (auto simp: hasHint_def trim_Nil_iff split: option.splits)

lemma repeat_star: "0 \<le> n \<Longrightarrow> repeat (lit ''*'') n = Inr (replicate (nat n) 42)"
  by (induction "nat n" arbitrary: n) (auto simp: repeat_def lit_def replicate_Suc[symmetric] simp del: replicate_Suc)

lemma getHint_existing: "hasHint c \<Longrightarrow> getHint c = Inr (the (hint c))"
  by (simp add: getHint_def)

lemma getHint_masked:
  assumes "\<not> hasHint c" and "front c \<noteq> []"
  shows "getHint c = Inr (take (if length (front c) \<le> 3 then 1 else 3) (front c)
            @ replicate (length (front c) - (if length (front c) \<le> 3 then 1 else 3)) 42)"
proof -
  have "0 < length (front c)" using assms(2) by simp
  then show ?thesis using assms(1)
    by (simp add: getHint_def Let_def repeat_star substring0_def nat_diff_distrib')
qed

lemma getHint_masked_length:
  assumes "\<not> hasHint c" and "front c \<noteq> []" and "getHint c = Inr r"
  shows "length r = length (front c)"
  using assms getHint_masked[OF assms(1,2)] by (auto split: if_splits)

lemma getHint_empty_front:
  assumes "\<not> hasHint c" and "front c = []"
  shows "getHint c = Inl RangeError"
  using assms by (simp add: getHint_def repeat_def)

text \<open>\<^verbatim>\<open>getHint\<close> raises exactly for a card with no usable hint and an empty front.\<close>

lemma getHint_raises_iff:
  "(\<exists>e. getHint c = Inl e) \<longleftrightarrow> \<not> hasHint c \<and> front c = []"
proof (cases "hasHint c")
  case True
  then show ?thesis by (simp add: getHint_existing)
next
  case False
  show ?thesis
  proof (cases "front c = []")
    case True
    with False show ?thesis by (simp add: getHint_empty_front)
  next
    case ne: False
    from getHint_masked [OF False ne] False ne show ?thesis by simp
  qed
qed

text \<open>
  Claim C2, as stated, fails: \<^verbatim>\<open>"Python Programming"\<close> has 18 code units, so the
  three revealed ones are followed by 15 mask characters, not 16.
\<close>

theorem getHint_Python_16_counterexample:
  "getHint cardPython \<noteq> Inr (lit (''Pyt'' @ replicate 16 CHR ''*''))"
  by (simp add: getHint_def hasHint_def cardPython_def lit_def repeat_def substring0_def)

text \<open>
  Claim C2 (amended): for a flashcard with no usable hint, \<^verbatim>\<open>getHint\<close> on front
  \<^verbatim>\<open>"Hi"\<close> returns \<^verbatim>\<open>"H*"\<close>, and on front \<^verbatim>\<open>"Python Programming"\<close> returns
  \<^verbatim>\<open>"Pyt"\<close> followed by 15 mask characters.
\<close>

theorem getHint_short_and_long:
  "\<not> hasHint c \<Longrightarrow>
     (front c = lit ''Hi'' \<longrightarrow> getHint c = Inr (lit ''H*'')) \<and>
     (front c = lit ''Python Programming'' \<longrightarrow>
        getHint c = Inr (lit (''Pyt'' @ replicate 15 CHR ''*'')))"
  by (simp add: getHint_def lit_def repeat_def substring0_def)

theorem getHint_short_and_long_witness:
  "\<not> hasHint cardHi \<and> getHint cardHi = Inr (lit ''H*'') \<and>
   \<not> hasHint cardPython \<and> getHint cardPython = Inr (lit (''Pyt'' @ replicate 15 CHR ''*''))"
proof -
  have h1: "\<not> hasHint cardHi" by (simp add: hasHint_def cardHi_def)
  have h2: "\<not> hasHint cardPython" by (simp add: hasHint_def cardPython_def)
  have f1: "front cardHi = lit ''Hi''" by (simp add: cardHi_def)
  have f2: "front cardPython = lit ''Python Programming''" by (simp add: cardPython_def)
  from getHint_short_and_long [OF h1] f1 getHint_short_and_long [OF h2] f2 h1 h2
  show ?thesis by blast
qed

text \<open>
  Claim C3: every public function is total and raises no exception; in particular
  \<^verbatim>\<open>getHint\<close> returns a string for a flashcard whose front is the empty string and
  whose hint is empty. The code does not: for an empty front \<^verbatim>\<open>frontText.length - 1\<close>
  is \<open>-1\<close> and \<^verbatim>\<open>'*'.repeat(-1)\<close> throws a \<^verbatim>\<open>RangeError\<close>.
\<close>

theorem getHint_empty_front_raises:
  "getHint cardEmpty = Inl RangeError"
  by (simp add: getHint_def hasHint_def cardEmpty_def repeat_def lit_def)

text \<open>
  Claim C7: \<^verbatim>\<open>getHint\<close> returns a usable hint verbatim and otherwise a prefix of the
  front followed by one mask character per remaining code unit, so that the result is
  as long as the front. Lemmas \<open>getHint_existing\<close>, \<open>getHint_masked\<close> and
  \<open>getHint_masked_length\<close> show this for every card with a usable hint or a non-empty
  front. For an empty front and a whitespace-only hint the code returns no string at all:
  it throws the \<^verbatim>\<open>RangeError\<close> of \<^verbatim>\<open>'*'.repeat(-1)\<close>.
\<close>

theorem getHint_blank_hint_empty_front_raises:
  "\<not> hasHint cardBlank \<and> front cardBlank = [] \<and> getHint cardBlank = Inl RangeError"
  by (simp add: getHint_def hasHint_def cardBlank_def repeat_def lit_def trim_def isWhiteSpace_def)

section \<open>Properties of \<^verbatim>\<open>practice\<close>\<close>

text \<open>The remainder is zero exactly when the divisor divides the dividend.\<close>

lemma js_rem_zero_iff: "js_rem a b = 0 \<longleftrightarrow> a mod b = 0"
proof -
  have "js_rem a b = 0 \<longleftrightarrow> \<bar>a\<bar> mod \<bar>b\<bar> = 0 \<or> a = 0"
    by (auto simp: js_rem_def sgn_if)
  also have "\<dots> \<longleftrightarrow> \<bar>a\<bar> mod \<bar>b\<bar> = 0"
    by auto
  also have "\<dots> \<longleftrightarrow> \<bar>b\<bar> dvd \<bar>a\<bar>"
    by (simp add: mod_eq_0_iff_dvd)
  also have "\<dots> \<longleftrightarrow> b dvd a"
    by simp
  also have "\<dots> \<longleftrightarrow> a mod b = 0"
    by (simp add: mod_eq_0_iff_dvd)
  finally show ?thesis .
qed

text \<open>The test on the size of the bucket changes nothing: an empty bucket adds no card.\<close>

lemma practiceStep_eq:
  "practiceStep day (i, b) acc = (if day mod 2 ^ i = 0 then acc |\<union>| b else acc)"
  by (auto simp: practiceStep_def js_rem_zero_iff fcard_0_eq)

lemma practice_fold:
  "fset (fold (practiceStep day) (enumerate n xs) acc) =
     fset acc \<union> (\<Union>i\<in>{i. i < length xs \<and> day mod 2 ^ (n + i) = 0}. fset (xs ! i))"
proof (induction xs arbitrary: n acc)
  case Nil
  then show ?case by simp
next
  case (Cons x xs)
  have split: "{i. i < length (x # xs) \<and> day mod 2 ^ (n + i) = 0} =
      (if day mod 2 ^ n = 0 then {0} else {}) \<union>
      Suc ` {i. i < length xs \<and> day mod 2 ^ (Suc n + i) = 0}"
    by (auto simp: less_Suc_eq_0_disj image_iff)
  show ?case
    unfolding split
    by (simp add: Cons.IH practiceStep_eq del: power_Suc) blast
qed

lemma practice_eq:
  "fset (practice buckets day) =
     (\<Union>i\<in>{i. i < length buckets \<and> day mod 2 ^ i = 0}. fset (buckets ! i))"
  using practice_fold [of day 0 buckets "{||}"]
  by (simp add: practice_def)

text \<open>
  Claim C4: for every dense sequence of buckets and every day \<open>\<ge> 0\<close>, \<^verbatim>\<open>practice\<close>
  returns exactly the union of the buckets at the indices \<open>i\<close> with \<open>day mod 2 ^ i = 0\<close>;
  bucket 0 has no case of its own, and all its cards are selected on every day.
\<close>

theorem practice_selects_due:
  assumes "0 \<le> day"
  shows "fset (practice buckets day) =
           (\<Union>i\<in>{i. i < length buckets \<and> day mod 2 ^ i = 0}. fset (buckets ! i)) \<and>
         (buckets \<noteq> [] \<longrightarrow> buckets ! 0 |\<subseteq>| practice buckets day)"
proof -
  have a: "fset (practice buckets day) =
      (\<Union>i\<in>{i. i < length buckets \<and> day mod 2 ^ i = 0}. fset (buckets ! i))"
    by (rule practice_eq)
  have b: "buckets \<noteq> [] \<longrightarrow> buckets ! 0 |\<subseteq>| practice buckets day"
  proof
    assume "buckets \<noteq> []"
    then have "0 \<in> {i. i < length buckets \<and> day mod 2 ^ i = 0}" by simp
    then have "fset (buckets ! 0) \<subseteq> fset (practice buckets day)"
      unfolding practice_eq by (rule UN_upper)
    then show "buckets ! 0 |\<subseteq>| practice buckets day"
      by (simp add: less_eq_fset.rep_eq)
  qed
  from a b show ?thesis by (rule conjI)
qed

theorem practice_selects_due_witness:
  "(0::int) \<le> 4 \<and>
   fset (practice denseExample 4) =
     (\<Union>i\<in>{i. i < length denseExample \<and> (4::int) mod 2 ^ i = 0}. fset (denseExample ! i)) \<and>
   denseExample \<noteq> [] \<and> denseExample ! 0 |\<subseteq>| practice denseExample 4"
proof -
  have h: "(0::int) \<le> 4" by simp
  have ne: "denseExample \<noteq> []" by (simp add: denseExample_def)
  note r = practice_selects_due [OF h, of denseExample]
  from r have a: "fset (practice denseExample 4) =
     (\<Union>i\<in>{i. i < length denseExample \<and> (4::int) mod 2 ^ i = 0}. fset (denseExample ! i))"
    by (rule conjunct1)
  from conjunct2 [OF r] ne have b: "denseExample ! 0 |\<subseteq>| practice denseExample 4"
    by (rule mp)
  show ?thesis by (rule conjI [OF h conjI [OF a conjI [OF ne b]]])
qed

section \<open>Properties of \<^verbatim>\<open>update\<close>\<close>

subsection \<open>The map operations\<close>

lemma map_of_Map_set: "map_of (Map_set m k v) = (map_of m)(k \<mapsto> v)"
  by (induction m k v rule: Map_set.induct) (auto simp: fun_eq_iff)

lemma keys_Map_set:
  "map fst (Map_set m k v) = (if k \<in> set (map fst m) then map fst m else map fst m @ [k])"
  by (induction m k v rule: Map_set.induct) auto

lemma keyset_Map_set: "fst ` set (Map_set m k v) = insert k (fst ` set m)"
  by (induction m k v rule: Map_set.induct) auto

lemma Map_set_new: "k \<notin> set (map fst m) \<Longrightarrow> Map_set m k v = m @ [(k, v)]"
  by (induction m k v rule: Map_set.induct) auto

lemma Map_wf_Map_set: "Map_wf m \<Longrightarrow> Map_wf (Map_set m k v)"
  by (simp add: Map_wf_def keys_Map_set)

subsection \<open>The two loops\<close>

text \<open>On a map, whose keys are distinct, the first loop rebuilds the entries in order.\<close>

lemma copy_fold:
  "distinct (map fst (acc @ xs)) \<Longrightarrow>
     fold (\<lambda>(bucket, cards) newBuckets. Map_set newBuckets bucket cards) xs acc = acc @ xs"
proof (induction xs arbitrary: acc)
  case Nil
  then show ?case by simp
next
  case (Cons x xs)
  obtain k v where x: "x = (k, v)" by (cases x)
  from Cons.prems have "k \<notin> set (map fst acc)" by (auto simp: x)
  then have "Map_set acc k v = acc @ [(k, v)]" by (rule Map_set_new)
  moreover from Cons.prems have "distinct (map fst ((acc @ [(k, v)]) @ xs))" by (simp add: x)
  ultimately show ?case using Cons.IH [of "acc @ [(k, v)]"] by (simp add: x)
qed

lemma copyBuckets_wf: "Map_wf buckets \<Longrightarrow> copyBuckets buckets = buckets"
  using copy_fold [of "[]" buckets] by (simp add: copyBuckets_def Map_wf_def)

text \<open>
  The second loop leaves the sentinel and the copy alone when no bucket has the card,
  and when just bucket \<open>s\<close> has it, it records \<open>s\<close> and deletes the card there. The
  lookup in the copy never fails.
\<close>

lemma findAndRemove_absent:
  "\<forall>(k, c)\<in>set rest. card' |\<notin>| c \<Longrightarrow> findAndRemove rest card' (cur, nb) = Inr (cur, nb)"
  by (induction rest card' "(cur, nb)" rule: findAndRemove.induct) auto

lemma findAndRemove_once:
  assumes "distinct (map fst rest)"
    and "(s, cs) \<in> set rest" and "card' |\<in>| cs"
    and "\<forall>(k, c)\<in>set rest. card' |\<in>| c \<longrightarrow> k = s"
    and "Map_get nb s = Some v"
  shows "findAndRemove rest card' (cur, nb) = Inr (s, Map_set nb s (v |-| {|card'|}))"
  using assms
proof (induction rest arbitrary: cur)
  case Nil
  then show ?case by simp
next
  case (Cons x rest)
  obtain k c where x: "x = (k, c)" by (cases x)
  show ?case
  proof (cases "card' |\<in>| c")
    case True
    with Cons.prems(4) have ks: "k = s" by (auto simp: x)
    from Cons.prems(1) have "s \<notin> fst ` set rest" by (simp add: x ks)
    with Cons.prems(4) have "\<forall>(k, c)\<in>set rest. card' |\<notin>| c"
      by (force simp: x)
    then have "findAndRemove rest card' (s, Map_set nb s (v |-| {|card'|}))
        = Inr (s, Map_set nb s (v |-| {|card'|}))"
      by (rule findAndRemove_absent)
    with True Cons.prems(5) show ?thesis by (simp add: x ks)
  next
    case False
    with Cons.prems(2,3) have "(s, cs) \<in> set rest" by (auto simp: x)
    moreover from Cons.prems(1) have "distinct (map fst rest)" by simp
    moreover from Cons.prems(4) have "\<forall>(k, c)\<in>set rest. card' |\<in>| c \<longrightarrow> k = s" by simp
    ultimately have "findAndRemove rest card' (cur, nb) = Inr (s, Map_set nb s (v |-| {|card'|}))"
      using Cons.IH Cons.prems(3,5) by blast
    with False show ?thesis by (simp add: x)
  qed
qed

subsection \<open>\<^verbatim>\<open>update\<close> never raises\<close>

text \<open>
  The copy has every key of the input, and deleting from a bucket keeps its key, so
  neither lookup with \<^verbatim>\<open>!\<close> meets a missing key, whatever the map and the card are.
\<close>

lemma keyset_copy_fold:
  "fst ` set (fold (\<lambda>(bucket, cards) newBuckets. Map_set newBuckets bucket cards) xs acc) =
     fst ` set acc \<union> fst ` set xs"
proof (induction xs arbitrary: acc)
  case Nil
  show ?case by simp
next
  case (Cons x xs)
  obtain k v where x: "x = (k, v)" by (cases x)
  have "fst ` set (Map_set acc k v) \<union> fst ` set xs = fst ` set acc \<union> fst ` set (x # xs)"
    by (simp add: keyset_Map_set x)
  with Cons.IH [of "Map_set acc k v"] show ?case by (simp add: x)
qed

lemma keyset_copyBuckets: "fst ` set (copyBuckets buckets) = fst ` set buckets"
  by (simp add: copyBuckets_def keyset_copy_fold)

lemma findAndRemove_total:
  "fst ` set rest \<subseteq> fst ` set nb \<Longrightarrow>
     \<exists>cur' nb'. findAndRemove rest card' (cur, nb) = Inr (cur', nb') \<and>
        fst ` set nb' = fst ` set nb"
proof (induction rest arbitrary: cur nb)
  case Nil
  then show ?case by simp
next
  case (Cons x rest)
  obtain k c where x: "x = (k, c)" by (cases x)
  from Cons.prems have k: "k \<in> fst ` set nb" and sub: "fst ` set rest \<subseteq> fst ` set nb"
    by (simp_all add: x)
  show ?case
  proof (cases "card' |\<in>| c")
    case True
    from k obtain s where s: "Map_get nb k = Some s"
      by (auto simp: Map_get_def dest!: weak_map_of_SomeI)
    let ?nb = "Map_set nb k (s |-| {|card'|})"
    have ks: "fst ` set ?nb = fst ` set nb" using k by (simp add: keyset_Map_set insert_absorb)
    with sub have "fst ` set rest \<subseteq> fst ` set ?nb" by simp
    from Cons.IH [OF this, of k] ks True s show ?thesis by (simp add: x)
  next
    case False
    with Cons.IH [OF sub, of cur] show ?thesis by (simp add: x)
  qed
qed

lemma update_total: "\<exists>out. update buckets card' difficulty = Inr out"
proof -
  have "fst ` set buckets \<subseteq> fst ` set (copyBuckets buckets)"
    by (simp add: keyset_copyBuckets)
  from findAndRemove_total [OF this, of card' "- 1"] obtain cur nb where
    far: "findAndRemove buckets card' (- 1, copyBuckets buckets) = Inr (cur, nb)"
    by blast
  let ?t = "targetBucket cur difficulty"
  show ?thesis
  proof (cases "Map_has nb ?t")
    case True
    then obtain s where "Map_get nb ?t = Some s"
      by (auto simp: Map_has_def Map_get_def dest!: weak_map_of_SomeI)
    with far True show ?thesis by (simp add: update_def Let_def)
  next
    case False
    have "Map_get (Map_set nb ?t {||}) ?t = Some {||}"
      by (simp add: Map_get_def map_of_Map_set)
    with far False show ?thesis by (simp add: update_def Let_def)
  qed
qed

subsection \<open>The result of \<^verbatim>\<open>update\<close>\<close>

lemma update_from_state:
  assumes "findAndRemove buckets card' (- 1, copyBuckets buckets) = Inr (cur, nb)"
    and "Map_wf nb"
  shows "\<exists>out. update buckets card' d = Inr out \<and> Map_wf out \<and>
           map_of out = (map_of nb)(targetBucket cur d \<mapsto>
              finsert card' (case map_of nb (targetBucket cur d) of None \<Rightarrow> {||} | Some x \<Rightarrow> x)) \<and>
           set (map fst out) = insert (targetBucket cur d) (set (map fst nb))"
proof (cases "Map_has nb (targetBucket cur d)")
  case True
  then obtain x where x: "map_of nb (targetBucket cur d) = Some x"
    by (auto simp: Map_has_def dest!: weak_map_of_SomeI)
  show ?thesis
    using assms True x
    by (simp add: update_def Let_def Map_get_def map_of_Map_set keyset_Map_set Map_wf_Map_set Map_has_def insert_absorb)
next
  case False
  then have "map_of nb (targetBucket cur d) = None"
    by (simp add: Map_has_def map_of_eq_None_iff)
  then show ?thesis
    using assms False
    by (simp add: update_def Let_def Map_get_def map_of_Map_set keyset_Map_set Map_wf_Map_set Map_has_def)
qed


lemma distinct_singleton: "distinct xs \<Longrightarrow> set xs = {s} \<Longrightarrow> xs = [s]"
proof (cases xs)
  case Nil
  assume "set xs = {s}"
  with Nil show ?thesis by simp
next
  case (Cons a ys)
  assume d: "distinct xs" and e: "set xs = {s}"
  from e Cons have a: "a = s" by auto
  from e Cons have "set ys \<subseteq> {s}" by auto
  moreover from d Cons a have "s \<notin> set ys" by simp
  ultimately have "ys = []" by (cases ys) auto
  then show ?thesis using Cons a by simp
qed

lemma distinct_bucketsHolding: "Map_wf m \<Longrightarrow> distinct (bucketsHolding m c)"
  by (simp add: Map_wf_def bucketsHolding_def distinct_map_filter)

lemma set_bucketsHolding:
  "Map_wf m \<Longrightarrow> set (bucketsHolding m c) = {k. \<exists>cs. map_of m k = Some cs \<and> c |\<in>| cs}"
  by (force simp: Map_wf_def bucketsHolding_def)

lemma bucketsHolding_Nil_iff:
  "bucketsHolding m c = [] \<longleftrightarrow> (\<forall>(k, cs)\<in>set m. c |\<notin>| cs)"
  by (auto simp: bucketsHolding_def filter_empty_conv)

lemma update_moves:
  assumes "findAndRemove buckets card' (- 1, copyBuckets buckets) = Inr (cur, nb)"
    and "Map_wf nb" and "bucketsHolding nb card' = []"
  shows "\<exists>out. update buckets card' d = Inr out \<and> Map_wf out \<and>
           bucketsHolding out card' = [targetBucket cur d] \<and>
           set (map fst out) = insert (targetBucket cur d) (set (map fst nb)) \<and>
           map_of out = (map_of nb)(targetBucket cur d \<mapsto>
              finsert card' (case map_of nb (targetBucket cur d) of None \<Rightarrow> {||} | Some x \<Rightarrow> x))"
proof -
  from update_from_state [OF assms(1,2), of d] obtain out where
    out: "update buckets card' d = Inr out" "Map_wf out"
      "map_of out = (map_of nb)(targetBucket cur d \<mapsto>
          finsert card' (case map_of nb (targetBucket cur d) of None \<Rightarrow> {||} | Some x \<Rightarrow> x))"
      "set (map fst out) = insert (targetBucket cur d) (set (map fst nb))"
    by blast
  from assms(2,3) have none: "\<And>k cs. map_of nb k = Some cs \<Longrightarrow> card' |\<notin>| cs"
    using set_bucketsHolding [of nb card'] by auto
  have "set (bucketsHolding out card') = {targetBucket cur d}"
    unfolding set_bucketsHolding [OF out(2)] out(3) using none by auto
  with distinct_bucketsHolding [OF out(2)]
  have "bucketsHolding out card' = [targetBucket cur d]" by (rule distinct_singleton)
  with out show ?thesis by blast
qed

lemma holding_singleD:
  assumes "Map_wf m" and "bucketsHolding m c = [s]"
  shows "\<exists>cs. (s, cs) \<in> set m \<and> c |\<in>| cs \<and> Map_get m s = Some cs"
    and "\<forall>(k, cs)\<in>set m. c |\<in>| cs \<longrightarrow> k = s"
proof -
  have "set (bucketsHolding m c) = {s}" using assms(2) by simp
  then have eq: "{k. \<exists>cs. map_of m k = Some cs \<and> c |\<in>| cs} = {s}"
    using set_bucketsHolding [OF assms(1), of c] by simp
  then have "s \<in> {k. \<exists>cs. map_of m k = Some cs \<and> c |\<in>| cs}" by simp
  then show "\<exists>cs. (s, cs) \<in> set m \<and> c |\<in>| cs \<and> Map_get m s = Some cs"
    by (auto simp: Map_get_def dest: map_of_SomeD)
  show "\<forall>(k, cs)\<in>set m. c |\<in>| cs \<longrightarrow> k = s"
  proof (clarify)
    fix k cs assume "(k, cs) \<in> set m" "c |\<in>| cs"
    with assms(1) have "k \<in> {k. \<exists>cs. map_of m k = Some cs \<and> c |\<in>| cs}"
      by (auto simp: Map_wf_def)
    with eq show "k = s" by simp
  qed
qed

lemma update_single:
  assumes "Map_wf buckets" and "bucketsHolding buckets card' = [s]"
  shows "\<exists>out. update buckets card' d = Inr out \<and> Map_wf out \<and>
           bucketsHolding out card' = [targetBucket s d] \<and>
           set (map fst out) = insert (targetBucket s d) (set (map fst buckets)) \<and>
           (\<exists>cs. Map_get buckets s = Some cs \<and> card' |\<in>| cs \<and>
              Map_get out s = Some (if targetBucket s d = s then cs else cs |-| {|card'|}))"
proof -
  from holding_singleD [OF assms] obtain cs where
    cs: "(s, cs) \<in> set buckets" "card' |\<in>| cs" "Map_get buckets s = Some cs"
    and only: "\<forall>(k, c)\<in>set buckets. card' |\<in>| c \<longrightarrow> k = s"
    by blast
  let ?nb = "Map_set buckets s (cs |-| {|card'|})"
  from assms(1) have d: "distinct (map fst buckets)" by (simp add: Map_wf_def)
  have far: "findAndRemove buckets card' (- 1, copyBuckets buckets) = Inr (s, ?nb)"
    unfolding copyBuckets_wf [OF assms(1)]
    by (rule findAndRemove_once [OF d cs(1,2) only cs(3)])
  have wf: "Map_wf ?nb" using assms(1) by (rule Map_wf_Map_set)
  have "set (bucketsHolding ?nb card') = {}"
    unfolding set_bucketsHolding [OF wf] map_of_Map_set
    using only d by (auto dest: map_of_SomeD)
  then have none: "bucketsHolding ?nb card' = []" by simp
  have keys: "set (map fst ?nb) = set (map fst buckets)"
    using cs(1) by (force simp: keyset_Map_set)
  from update_moves [OF far wf none, of d] obtain out where
    out: "update buckets card' d = Inr out" "Map_wf out"
      "bucketsHolding out card' = [targetBucket s d]"
      "set (map fst out) = insert (targetBucket s d) (set (map fst ?nb))"
      "map_of out = (map_of ?nb)(targetBucket s d \<mapsto>
          finsert card' (case map_of ?nb (targetBucket s d) of None \<Rightarrow> {||} | Some x \<Rightarrow> x))"
    by blast
  have "Map_get out s = Some (if targetBucket s d = s then cs else cs |-| {|card'|})"
    using cs(2) by (auto simp: Map_get_def out(5) map_of_Map_set)
  with out(1-4) keys cs(2,3) show ?thesis by auto
qed

lemma update_absent:
  assumes "Map_wf buckets" and "bucketsHolding buckets card' = []"
  shows "\<exists>out. update buckets card' d = Inr out \<and> Map_wf out \<and>
           bucketsHolding out card' = [targetBucket (- 1) d] \<and>
           set (map fst out) = insert (targetBucket (- 1) d) (set (map fst buckets))"
proof -
  from assms(2) have "\<forall>(k, c)\<in>set buckets. card' |\<notin>| c"
    by (simp add: bucketsHolding_Nil_iff)
  then have far: "findAndRemove buckets card' (- 1, copyBuckets buckets) = Inr (- 1, buckets)"
    unfolding copyBuckets_wf [OF assms(1)] by (rule findAndRemove_absent)
  from update_moves [OF far assms(1,2), of d] show ?thesis by blast
qed


text \<open>
  Claim C1: when the card is in exactly one bucket, numbered \<open>s\<close> with \<open>0 \<le> s \<le> 7\<close>,
  \<^verbatim>\<open>update\<close> returns a map in which the card is in the bucket \<open>min (s + 2) 7\<close> for
  \<^verbatim>\<open>Easy\<close>, \<open>min (s + 1) 7\<close> for \<^verbatim>\<open>Hard\<close> and \<open>0\<close> for \<^verbatim>\<open>Wrong\<close>, and in no other;
  from bucket 6 an \<^verbatim>\<open>Easy\<close> answer moves it to bucket 7, and a bucket 8 that the input
  does not have is not created. (The proof does not use the bounds on \<open>s\<close>.)
\<close>

theorem update_destination:
  assumes "Map_wf buckets" and "bucketsHolding buckets card' = [s]" and "0 \<le> s" and "s \<le> 7"
  shows "\<exists>out. update buckets card' d = Inr out \<and> Map_wf out \<and>
           bucketsHolding out card' =
             [case d of Easy \<Rightarrow> min (s + 2) 7 | Hard \<Rightarrow> min (s + 1) 7 | Wrong \<Rightarrow> 0] \<and>
           (s = 6 \<and> d = Easy \<longrightarrow> bucketsHolding out card' = [7]) \<and>
           (\<not> Map_has buckets 8 \<longrightarrow> \<not> Map_has out 8)"
proof -
  from update_single [OF assms(1,2), of d] obtain out where
    out: "update buckets card' d = Inr out"
      "bucketsHolding out card' = [targetBucket s d]"
      "set (map fst out) = insert (targetBucket s d) (set (map fst buckets))"
    and wf: "Map_wf out"
    by blast
  have t: "targetBucket s d =
      (case d of Easy \<Rightarrow> min (s + 2) 7 | Hard \<Rightarrow> min (s + 1) 7 | Wrong \<Rightarrow> 0)"
    by (cases d) (simp_all add: targetBucket_def)
  have le: "targetBucket s d \<le> 7"
    by (cases d) (simp_all add: targetBucket_def)
  have ks: "fst ` set out = insert (targetBucket s d) (fst ` set buckets)"
    using out(3) by simp
  have "\<not> Map_has buckets 8 \<longrightarrow> \<not> Map_has out 8"
    using le by (simp add: Map_has_def ks)
  moreover have "s = 6 \<and> d = Easy \<longrightarrow> bucketsHolding out card' = [7]"
    by (auto simp: out(2) targetBucket_def)
  ultimately show ?thesis using out(1,2) wf t by auto
qed

theorem update_destination_witness:
  "Map_wf highBuckets \<and> bucketsHolding highBuckets cardQ1 = [6] \<and> (0::int) \<le> 6 \<and> (6::int) \<le> 7 \<and>
   (\<exists>out. update highBuckets cardQ1 Easy = Inr out \<and> Map_wf out \<and>
      bucketsHolding out cardQ1 = [7] \<and> \<not> Map_has out 8)"
proof -
  have h1: "Map_wf highBuckets" by (simp add: Map_wf_def highBuckets_def)
  have h2: "bucketsHolding highBuckets cardQ1 = [6]"
    by (simp add: bucketsHolding_def highBuckets_def)
  have h3: "(0::int) \<le> 6" and h4: "(6::int) \<le> 7" by simp_all
  have h5: "\<not> Map_has highBuckets 8" by (simp add: Map_has_def highBuckets_def)
  from update_destination [OF h1 h2 h3 h4, of Easy] h5
  have "\<exists>out. update highBuckets cardQ1 Easy = Inr out \<and> Map_wf out \<and>
      bucketsHolding out cardQ1 = [7] \<and> \<not> Map_has out 8"
    by auto
  with h1 h2 show ?thesis by simp
qed

text \<open>
  Claim C6: when all keys lie in \<open>[0, 7]\<close> and the card is in exactly one bucket \<open>s\<close>,
  then after \<^verbatim>\<open>update\<close> the card is in exactly one bucket of the output, every bucket
  number of the output lies in \<open>[0, 7]\<close>, and the source bucket \<open>s\<close> is still a key of
  the output: it holds its old set without the card (its old set when the card moves
  back into it).
\<close>

theorem update_invariants:
  assumes "Map_wf buckets" and "\<forall>k\<in>set (map fst buckets). 0 \<le> k \<and> k \<le> 7"
    and "bucketsHolding buckets card' = [s]"
  shows "\<exists>out. update buckets card' d = Inr out \<and> Map_wf out \<and>
           (\<exists>t. bucketsHolding out card' = [t]) \<and>
           (\<forall>k\<in>set (map fst out). 0 \<le> k \<and> k \<le> 7) \<and>
           Map_has out s \<and>
           (\<exists>cs. Map_get buckets s = Some cs \<and>
              Map_get out s = Some (if targetBucket s d = s then cs else cs |-| {|card'|}))"
proof -
  from update_single [OF assms(1,3), of d] obtain out cs where
    out: "update buckets card' d = Inr out" "Map_wf out"
      "bucketsHolding out card' = [targetBucket s d]"
      "set (map fst out) = insert (targetBucket s d) (set (map fst buckets))"
      "Map_get buckets s = Some cs"
      "Map_get out s = Some (if targetBucket s d = s then cs else cs |-| {|card'|})"
    by blast
  from out(5) have sk: "s \<in> set (map fst buckets)"
    by (auto simp: Map_get_def dest: map_of_SomeD intro: rev_image_eqI)
  with assms(2) have s: "0 \<le> s" "s \<le> 7" by auto
  have "0 \<le> targetBucket s d \<and> targetBucket s d \<le> 7"
    using s by (cases d) (simp_all add: targetBucket_def)
  with assms(2) out(4) have "\<forall>k\<in>set (map fst out). 0 \<le> k \<and> k \<le> 7" by auto
  moreover have "Map_has out s" using sk out(4) by (simp add: Map_has_def)
  ultimately show ?thesis using out by blast
qed

theorem update_invariants_witness:
  "Map_wf highBuckets \<and> list_all (\<lambda>k. 0 \<le> k \<and> k \<le> 7) (map fst highBuckets) \<and>
   bucketsHolding highBuckets cardQ1 = [6] \<and>
   (\<exists>out. update highBuckets cardQ1 Hard = Inr out \<and> Map_wf out \<and>
      (\<exists>t. bucketsHolding out cardQ1 = [t]) \<and>
      (\<forall>k\<in>set (map fst out). 0 \<le> k \<and> k \<le> 7) \<and> Map_has out 6)"
proof -
  have h1: "Map_wf highBuckets" by (simp add: Map_wf_def highBuckets_def)
  have h2: "\<forall>k\<in>set (map fst highBuckets). 0 \<le> k \<and> k \<le> 7" by (simp add: highBuckets_def)
  have h3: "bucketsHolding highBuckets cardQ1 = [6]"
    by (simp add: bucketsHolding_def highBuckets_def)
  from h2 have h2': "list_all (\<lambda>k. 0 \<le> k \<and> k \<le> 7) (map fst highBuckets)"
    by (simp only: list_all_iff)
  from update_invariants [OF h1 h2 h3, of Hard]
  have "\<exists>out. update highBuckets cardQ1 Hard = Inr out \<and> Map_wf out \<and>
      (\<exists>t. bucketsHolding out cardQ1 = [t]) \<and>
      (\<forall>k\<in>set (map fst out). 0 \<le> k \<and> k \<le> 7) \<and> Map_has out 6"
    by blast
  with h1 h2' h3 show ?thesis by (intro conjI)
qed

text \<open>
  Claim C10: when no bucket has the card, the second loop leaves the source bucket
  number at the sentinel \<open>-1\<close>, and \<^verbatim>\<open>update\<close> returns normally with the card in
  exactly one bucket: bucket 1 for \<^verbatim>\<open>Easy\<close> and bucket 0 for \<^verbatim>\<open>Hard\<close> and \<^verbatim>\<open>Wrong\<close>.
\<close>

theorem update_absent_card:
  assumes "Map_wf buckets" and "bucketsHolding buckets card' = []"
  shows "findAndRemove buckets card' (- 1, copyBuckets buckets) = Inr (- 1, buckets) \<and>
         (\<exists>out. update buckets card' d = Inr out \<and> Map_wf out \<and>
            bucketsHolding out card' = [case d of Easy \<Rightarrow> 1 | Hard \<Rightarrow> 0 | Wrong \<Rightarrow> 0])"
proof -
  from assms(2) have "\<forall>(k, c)\<in>set buckets. card' |\<notin>| c"
    by (simp add: bucketsHolding_Nil_iff)
  then have far: "findAndRemove buckets card' (- 1, copyBuckets buckets) = Inr (- 1, buckets)"
    unfolding copyBuckets_wf [OF assms(1)] by (rule findAndRemove_absent)
  have t: "targetBucket (- 1) d = (case d of Easy \<Rightarrow> 1 | Hard \<Rightarrow> 0 | Wrong \<Rightarrow> 0)"
    by (cases d) (simp_all add: targetBucket_def)
  from update_absent [OF assms, of d] far t show ?thesis by auto
qed

theorem update_absent_card_witness:
  "Map_wf highBuckets \<and> bucketsHolding highBuckets cardQ2 = [] \<and>
   (\<exists>out. update highBuckets cardQ2 Easy = Inr out \<and> Map_wf out \<and>
      bucketsHolding out cardQ2 = [1])"
proof -
  have h1: "Map_wf highBuckets" by (simp add: Map_wf_def highBuckets_def)
  have h2: "bucketsHolding highBuckets cardQ2 = []"
    by (simp add: bucketsHolding_def highBuckets_def cardQ1_def cardQ2_def)
  from update_absent_card [OF h1 h2, of Easy] h1 h2 show ?thesis by simp
qed

section \<open>Properties of \<^verbatim>\<open>computeProgress\<close>\<close>

lemma countTotal_fold:
  "fold (\<lambda>(bucketKey, cardSet) totalCards. totalCards + fcard cardSet) xs a =
     a + (\<Sum>(k, cs)\<leftarrow>xs. fcard cs)"
  by (induction xs arbitrary: a) auto

lemma countTotal_eq: "countTotal buckets = (\<Sum>(k, cs)\<leftarrow>buckets. fcard cs)"
  by (simp add: countTotal_def countTotal_fold)

lemma countStage_fold:
  "fold (\<lambda>(bucketNum, cards) stageCards.
            if bucketNum \<ge> lo \<and> bucketNum \<le> hi then stageCards + fcard cards else stageCards) xs a =
     a + (\<Sum>(k, cs)\<leftarrow>xs. if lo \<le> k \<and> k \<le> hi then fcard cs else 0)"
  by (induction xs arbitrary: a) auto

lemma countStage_eq:
  "countStage buckets st =
     (\<Sum>(k, cs)\<leftarrow>buckets. if minBucket st \<le> k \<and> k \<le> maxBucket st then fcard cs else 0)"
  by (simp add: countStage_def countStage_fold)

text \<open>
  The keys of a map are distinct, so the cards counted under one bucket number are the
  cards of that bucket, and a stage counts the buckets of its range one by one.
\<close>

lemma sum_at_key:
  "distinct (map fst xs) \<Longrightarrow>
     (\<Sum>(k, cs)\<leftarrow>xs. if k = j then fcard cs else 0) = bucketSize xs j"
proof (induction xs)
  case Nil
  then show ?case by (simp add: bucketSize_def Map_get_def)
next
  case (Cons x xs)
  obtain k c where x: "x = (k, c)" by (cases x)
  show ?case
  proof (cases "k = j")
    case True
    with Cons.prems have "j \<notin> fst ` set xs" by (simp add: x)
    then have "map_of xs j = None" by (simp add: map_of_eq_None_iff)
    with Cons True show ?thesis by (simp add: x bucketSize_def Map_get_def)
  next
    case False
    with Cons show ?thesis by (simp add: x bucketSize_def Map_get_def)
  qed
qed

lemma sum_range_01:
  assumes "distinct (map fst xs)"
  shows "(\<Sum>(k, cs)\<leftarrow>xs. if (0::int) \<le> k \<and> k \<le> 1 then fcard cs else 0) =
           bucketSize xs 0 + bucketSize xs 1"
proof -
  have "(\<lambda>(k::int, cs::Flashcard fset). if 0 \<le> k \<and> k \<le> 1 then fcard cs else 0) =
        (\<lambda>p. (case p of (k, cs) \<Rightarrow> if k = 0 then fcard cs else 0) +
              (case p of (k, cs) \<Rightarrow> if k = 1 then fcard cs else 0))"
    by (auto simp: fun_eq_iff)
  then show ?thesis
    by (simp add: sum_list_addf sum_at_key [OF assms])
qed

lemma sum_range_24:
  assumes "distinct (map fst xs)"
  shows "(\<Sum>(k, cs)\<leftarrow>xs. if (2::int) \<le> k \<and> k \<le> 4 then fcard cs else 0) =
           bucketSize xs 2 + bucketSize xs 3 + bucketSize xs 4"
proof -
  have "(\<lambda>(k::int, cs::Flashcard fset). if 2 \<le> k \<and> k \<le> 4 then fcard cs else 0) =
        (\<lambda>p. (case p of (k, cs) \<Rightarrow> if k = 2 then fcard cs else 0) +
              (case p of (k, cs) \<Rightarrow> if k = 3 then fcard cs else 0) +
              (case p of (k, cs) \<Rightarrow> if k = 4 then fcard cs else 0))"
    by (auto simp: fun_eq_iff)
  then show ?thesis
    by (simp add: sum_list_addf sum_at_key [OF assms])
qed

lemma sum_range_57:
  assumes "distinct (map fst xs)"
  shows "(\<Sum>(k, cs)\<leftarrow>xs. if (5::int) \<le> k \<and> k \<le> 7 then fcard cs else 0) =
           bucketSize xs 5 + bucketSize xs 6 + bucketSize xs 7"
proof -
  have "(\<lambda>(k::int, cs::Flashcard fset). if 5 \<le> k \<and> k \<le> 7 then fcard cs else 0) =
        (\<lambda>p. (case p of (k, cs) \<Rightarrow> if k = 5 then fcard cs else 0) +
              (case p of (k, cs) \<Rightarrow> if k = 6 then fcard cs else 0) +
              (case p of (k, cs) \<Rightarrow> if k = 7 then fcard cs else 0))"
    by (auto simp: fun_eq_iff)
  then show ?thesis
    by (simp add: sum_list_addf sum_at_key [OF assms])
qed

text \<open>
  Claim C8: \<^verbatim>\<open>computeProgress\<close> returns as \<^verbatim>\<open>totalCards\<close> the sum of the sizes of all
  buckets, and a breakdown over exactly the three stages Beginner (buckets 0 to 1),
  Intermediate (buckets 2 to 4) and Advanced (buckets 5 to 7), each with its card count
  and with the percentage that count is of the total, which is 0 whenever the total
  is 0; the history has no influence on the result.
\<close>

theorem computeProgress_breakdown:
  assumes "Map_wf buckets"
  shows "totalCards (computeProgress buckets history) = (\<Sum>(k, cs)\<leftarrow>buckets. fcard cs) \<and>
         map stage (stageBreakdown (computeProgress buckets history)) =
           [lit ''Beginner'', lit ''Intermediate'', lit ''Advanced''] \<and>
         map cardCount (stageBreakdown (computeProgress buckets history)) =
           [bucketSize buckets 0 + bucketSize buckets 1,
            bucketSize buckets 2 + bucketSize buckets 3 + bucketSize buckets 4,
            bucketSize buckets 5 + bucketSize buckets 6 + bucketSize buckets 7] \<and>
         (\<forall>e\<in>set (stageBreakdown (computeProgress buckets history)).
            percentage e =
              (if totalCards (computeProgress buckets history) = 0 then 0
               else real (cardCount e) / real (totalCards (computeProgress buckets history)) * 100)) \<and>
         computeProgress buckets history = computeProgress buckets []"
proof -
  from assms have d: "distinct (map fst buckets)" by (simp add: Map_wf_def)
  let ?p = "computeProgress buckets history"
  have total: "totalCards ?p = (\<Sum>(k, cs)\<leftarrow>buckets. fcard cs)"
    by (simp add: computeProgress_def Let_def countTotal_eq)
  have names: "map stage (stageBreakdown ?p) =
      [lit ''Beginner'', lit ''Intermediate'', lit ''Advanced'']"
    by (simp add: computeProgress_def Let_def stages_def)
  have counts: "map cardCount (stageBreakdown ?p) =
      [bucketSize buckets 0 + bucketSize buckets 1,
       bucketSize buckets 2 + bucketSize buckets 3 + bucketSize buckets 4,
       bucketSize buckets 5 + bucketSize buckets 6 + bucketSize buckets 7]"
    by (simp add: computeProgress_def Let_def stages_def countStage_eq
        sum_range_01 [OF d] sum_range_24 [OF d] sum_range_57 [OF d])
  have perc: "\<forall>e\<in>set (stageBreakdown ?p). percentage e =
      (if totalCards ?p = 0 then 0 else real (cardCount e) / real (totalCards ?p) * 100)"
    by (simp add: computeProgress_def Let_def stages_def)
  have indep: "computeProgress buckets history = computeProgress buckets []"
    by (simp add: computeProgress_def)
  from total names counts perc indep show ?thesis by blast
qed

theorem computeProgress_breakdown_witness:
  "Map_wf progressExample \<and>
   totalCards (computeProgress progressExample []) = 3 \<and>
   map cardCount (stageBreakdown (computeProgress progressExample [])) = [1, 1, 1] \<and>
   Map_wf ([] :: BucketMap) \<and> totalCards (computeProgress [] []) = 0 \<and>
   list_all (\<lambda>e. percentage e = 0) (stageBreakdown (computeProgress [] []))"
proof -
  have h: "Map_wf progressExample" by (simp add: Map_wf_def progressExample_def)
  have h0: "Map_wf ([] :: BucketMap)" by (simp add: Map_wf_def)
  have s: "bucketSize progressExample 0 = 1" "bucketSize progressExample 1 = 0"
    "bucketSize progressExample 2 = 1" "bucketSize progressExample 3 = 0"
    "bucketSize progressExample 4 = 0" "bucketSize progressExample 5 = 0"
    "bucketSize progressExample 6 = 1" "bucketSize progressExample 7 = 0"
    by (simp_all add: bucketSize_def Map_get_def progressExample_def fcard_finsert_if)
  have t: "(\<Sum>(k, cs)\<leftarrow>progressExample. fcard cs) = 3"
    by (simp add: progressExample_def fcard_finsert_if)
  note full = computeProgress_breakdown [OF h, of "[]"]
  note empty = computeProgress_breakdown [OF h0, of "[]"]
  have a: "totalCards (computeProgress progressExample []) = 3"
    using full t by (elim conjE) simp
  have b: "map cardCount (stageBreakdown (computeProgress progressExample [])) = [1, 1, 1]"
    using full unfolding s by (elim conjE) simp
  have c: "totalCards (computeProgress [] []) = 0"
    using empty by (elim conjE) simp
  have "\<forall>e\<in>set (stageBreakdown (computeProgress [] [])). percentage e = 0"
    using empty unfolding c by (elim conjE) simp
  then have d: "list_all (\<lambda>e. percentage e = 0) (stageBreakdown (computeProgress [] []))"
    by (simp only: list_all_iff)
  from h h0 a b c d show ?thesis by (intro conjI)
qed

section \<open>Properties of \<^verbatim>\<open>toBucketSets\<close>\<close>

subsection \<open>The highest bucket number\<close>

lemma maxBucketNumber_Max: "maxBucketNumber buckets = Max (insert 0 (fst ` set buckets))"
  using Max.set_eq_fold [of 0 "map fst buckets"] by (simp add: maxBucketNumber_def)

lemma key_le_maxBucketNumber: "(k, v) \<in> set buckets \<Longrightarrow> k \<le> maxBucketNumber buckets"
  unfolding maxBucketNumber_Max by (rule Max_ge) (auto intro: rev_image_eqI)

lemma maxBucketNumber_nonneg: "0 \<le> maxBucketNumber buckets"
  unfolding maxBucketNumber_Max by (rule Max_ge) auto

lemma maxBucketNumber_keys:
  assumes "buckets \<noteq> []" and "\<forall>k\<in>set (map fst buckets). 0 \<le> k"
  shows "maxBucketNumber buckets = Max (set (map fst buckets))"
proof -
  let ?K = "fst ` set buckets"
  from assms(1) have ne: "?K \<noteq> {}" by simp
  have fin: "finite ?K" by simp
  from Max_in [OF fin ne] assms(2) have "0 \<le> Max ?K" by auto
  moreover have "Max (insert 0 ?K) = max 0 (Max ?K)"
    using fin ne by (rule Max_insert)
  ultimately show ?thesis by (simp add: maxBucketNumber_Max)
qed

subsection \<open>The filling loop\<close>

lemma putBucket_simp [simp]: "putBucket (k, s) bs = Array_set bs k s"
  by (simp add: putBucket_def)

lemma Array_set_length [simp]: "length (Array_set bs k s) = length bs"
  by (simp add: Array_set_def)

lemma fold_putBucket_length [simp]: "length (fold putBucket rest bs) = length bs"
  by (induction rest arbitrary: bs) auto

lemma fold_putBucket_nth:
  assumes "distinct (map fst rest)" and "i < length bs"
  shows "fold putBucket rest bs ! i =
           (case map_of rest (int i) of None \<Rightarrow> bs ! i | Some s \<Rightarrow> s)"
  using assms
proof (induction rest arbitrary: bs)
  case Nil
  then show ?case by simp
next
  case (Cons x rest)
  obtain k s where x: "x = (k, s)" by (cases x)
  from Cons.prems have d: "distinct (map fst rest)" and nk: "k \<notin> fst ` set rest"
    by (simp_all add: x)
  from Cons.prems(2) have i: "i < length (Array_set bs k s)" by simp
  note IH = Cons.IH [OF d i]
  show ?case
  proof (cases "k = int i")
    case True
    with nk have "map_of rest (int i) = None" by (simp add: map_of_eq_None_iff)
    moreover have "Array_set bs k s ! i = s"
      using True Cons.prems(2) by (simp add: Array_set_def)
    ultimately show ?thesis using IH True by (simp add: x)
  next
    case False
    then have "Array_set bs k s ! i = bs ! i"
      by (auto simp: Array_set_def nth_list_update)
    with IH False show ?thesis by (simp add: x split: option.splits)
  qed
qed

lemma filled_nth:
  assumes "Map_wf buckets" and "i < n"
  shows "fold putBucket buckets (replicate n {||}) ! i =
           (case Map_get buckets (int i) of None \<Rightarrow> {||} | Some s \<Rightarrow> s)"
proof -
  from assms(1) have d: "distinct (map fst buckets)" by (simp add: Map_wf_def)
  from assms(2) have "i < length (replicate n ({||} :: 'a fset))" by simp
  from fold_putBucket_nth [OF d this] assms(2) show ?thesis
    by (simp add: Map_get_def split: option.splits)
qed

subsection \<open>When \<^verbatim>\<open>toBucketSets\<close> returns and when it raises\<close>

lemma maxBucketNumber_less:
  assumes "\<forall>k\<in>set (map fst buckets). k < b" and "0 < b"
  shows "maxBucketNumber buckets < b"
proof -
  have "Max (insert 0 (fst ` set buckets)) < b \<longleftrightarrow> (\<forall>a\<in>insert 0 (fst ` set buckets). a < b)"
    by (rule Max_less_iff) simp_all
  with assms show ?thesis by (simp add: maxBucketNumber_Max)
qed

lemma toBucketSets_returns:
  assumes "buckets \<noteq> []" and "length buckets < argLimit"
    and "maxBucketNumber buckets < maxArrayLength"
  shows "toBucketSets argLimit buckets =
           Inr (fold putBucket buckets (replicate (nat (maxBucketNumber buckets + 1)) {||}))"
  using assms maxBucketNumber_nonneg [of buckets]
  by (simp add: toBucketSets_def Math_max_keys_def Array_length_def)

lemma toBucketSets_InrD:
  assumes "toBucketSets argLimit buckets = Inr dense" and "buckets \<noteq> []"
  shows "length buckets < argLimit" and "maxBucketNumber buckets < maxArrayLength"
    and "dense = fold putBucket buckets (replicate (nat (maxBucketNumber buckets + 1)) {||})"
  using assms
  by (auto simp: toBucketSets_def Math_max_keys_def Array_length_def split: if_splits)

lemma toBucketSets_raises_iff:
  "(\<exists>e. toBucketSets argLimit buckets = Inl e) \<longleftrightarrow>
     buckets \<noteq> [] \<and> (argLimit \<le> length buckets \<or> maxArrayLength \<le> maxBucketNumber buckets)"
  using maxBucketNumber_nonneg [of buckets]
  by (auto simp: toBucketSets_def Math_max_keys_def Array_length_def)

text \<open>The dense form of a sparse assignment with non-negative bucket numbers.\<close>

lemma toBucketSets_length:
  assumes "toBucketSets argLimit buckets = Inr dense"
    and "buckets \<noteq> []" and "\<forall>k\<in>set (map fst buckets). 0 \<le> k"
  shows "length dense = nat (Max (set (map fst buckets))) + 1"
proof -
  have "0 \<le> Max (set (map fst buckets))"
    using maxBucketNumber_nonneg [of buckets] maxBucketNumber_keys [OF assms(2,3)] by simp
  then show ?thesis
    using toBucketSets_InrD(3) [OF assms(1,2)]
    by (simp add: maxBucketNumber_keys [OF assms(2,3)] nat_add_distrib)
qed

lemma toBucketSets_nth:
  assumes "Map_wf buckets" and "toBucketSets argLimit buckets = Inr dense"
    and "i < length dense"
  shows "dense ! i = (case Map_get buckets (int i) of None \<Rightarrow> {||} | Some s \<Rightarrow> s)"
proof (cases "buckets = []")
  case True
  with assms(2,3) show ?thesis by (simp add: toBucketSets_def)
next
  case False
  note d = toBucketSets_InrD(3) [OF assms(2) False]
  with assms(3) have "i < nat (maxBucketNumber buckets + 1)" by simp
  from filled_nth [OF assms(1) this] d show ?thesis by simp
qed

subsection \<open>Normalising a dense sequence again\<close>

lemma entries_keys: "map fst (entries dense) = map int [0..<length dense]"
  by (simp add: entries_def)

lemma entries_wf: "Map_wf (entries dense)"
  by (simp add: Map_wf_def entries_keys distinct_map inj_on_def)

lemma entries_get:
  "i < length dense \<Longrightarrow> Map_get (entries dense) (int i) = Some (dense ! i)"
proof -
  assume i: "i < length dense"
  have "map_of (zip (map int [0..<length dense]) dense) (map int [0..<length dense] ! i)
      = Some (dense ! i)"
    by (rule map_of_zip_nth) (simp_all add: i distinct_map inj_on_def)
  with i show ?thesis by (simp add: Map_get_def entries_def)
qed

lemma entries_max:
  "dense \<noteq> [] \<Longrightarrow> maxBucketNumber (entries dense) = int (length dense) - 1"
proof -
  assume ne: "dense \<noteq> []"
  then have e: "entries dense \<noteq> []" by (simp add: entries_def)
  have nn: "\<forall>k\<in>set (map fst (entries dense)). 0 \<le> k" by (auto simp: entries_keys)
  have "Max (int ` {0..<length dense}) = int (length dense) - 1"
  proof (rule Max_eqI)
    show "finite (int ` {0..<length dense})" by simp
    show "\<And>y. y \<in> int ` {0..<length dense} \<Longrightarrow> y \<le> int (length dense) - 1" by auto
    show "int (length dense) - 1 \<in> int ` {0..<length dense}"
    proof
      show "int (length dense) - 1 = int (length dense - 1)"
        using ne by (cases dense) simp_all
      show "length dense - 1 \<in> {0..<length dense}"
        using ne by simp
    qed
  qed
  then show ?thesis by (simp add: maxBucketNumber_keys [OF e nn] entries_keys)
qed

lemma toBucketSets_entries:
  assumes "length dense < argLimit" and "int (length dense) \<le> maxArrayLength"
  shows "toBucketSets argLimit (entries dense) = Inr dense"
proof (cases "dense = []")
  case True
  then show ?thesis by (simp add: toBucketSets_def entries_def)
next
  case False
  then have ne: "entries dense \<noteq> []" by (simp add: entries_def)
  have len: "length (entries dense) < argLimit" using assms(1) by (simp add: entries_def)
  have mx: "maxBucketNumber (entries dense) < maxArrayLength"
    using assms(2) by (simp add: entries_max [OF False])
  have n: "nat (maxBucketNumber (entries dense) + 1) = length dense"
    by (simp add: entries_max [OF False])
  have "fold putBucket (entries dense) (replicate (length dense) {||}) = dense"
  proof (rule nth_equalityI)
    show "length (fold putBucket (entries dense) (replicate (length dense) {||})) = length dense"
      by simp
    fix i assume "i < length (fold putBucket (entries dense) (replicate (length dense) {||}))"
    then have i: "i < length dense" by simp
    from filled_nth [OF entries_wf [of dense] i] i
    show "fold putBucket (entries dense) (replicate (length dense) {||}) ! i = dense ! i"
      by (simp add: entries_get)
  qed
  with toBucketSets_returns [OF ne len mx] show ?thesis by (simp add: n)
qed

subsection \<open>The store model: the result is made of new objects\<close>

lemma newSets_eq: "newSets n h = ([length h..<length h + n], h @ replicate n {||})"
proof (induction n arbitrary: h)
  case 0
  show ?case by simp
next
  case (Suc n)
  have "[length h..<length h + Suc n] = length h # [Suc (length h)..<Suc (length h) + n]"
    by (simp add: upt_rec)
  then show ?case
    by (simp add: Suc.IH new_Set_def replicate_app_Cons_same)
qed

lemma copyInto_simp:
  "copyInto (k, r) (bs, h) = (Array_set bs k (length h), h @ [h ! r])"
  by (simp add: copyInto_def new_Set_def)

lemma fold_copyInto:
  assumes "distinct (map fst rest)"
    and "\<forall>(k, r)\<in>set rest. r < length h \<and> 0 \<le> k \<and> nat k < length bs"
  shows "\<exists>bs'. fold copyInto rest (bs, h) = (bs', h @ map (\<lambda>(k, r). h ! r) rest) \<and>
           length bs' = length bs \<and>
           (\<forall>j<length rest. bs' ! nat (fst (rest ! j)) = length h + j) \<and>
           (\<forall>i<length bs. int i \<notin> fst ` set rest \<longrightarrow> bs' ! i = bs ! i)"
  using assms
proof (induction rest arbitrary: bs h)
  case Nil
  then show ?case by simp
next
  case (Cons x rest)
  obtain k r where x: "x = (k, r)" by (cases x)
  let ?bs1 = "Array_set bs k (length h)" and ?h1 = "h @ [h ! r]"
  from Cons.prems(1) have d: "distinct (map fst rest)" and nk: "k \<notin> fst ` set rest"
    by (simp_all add: x)
  from Cons.prems(2) have kr: "r < length h" "0 \<le> k" "nat k < length bs"
    by (simp_all add: x)
  from Cons.prems(2)
  have p: "\<forall>(k, r)\<in>set rest. r < length ?h1 \<and> 0 \<le> k \<and> nat k < length ?bs1"
    by (auto simp: x)
  from Cons.IH [OF d p] obtain bs' where
    f: "fold copyInto rest (?bs1, ?h1) = (bs', ?h1 @ map (\<lambda>(k, r). ?h1 ! r) rest)"
    and len: "length bs' = length ?bs1"
    and new: "\<forall>j<length rest. bs' ! nat (fst (rest ! j)) = length ?h1 + j"
    and old: "\<forall>i<length ?bs1. int i \<notin> fst ` set rest \<longrightarrow> bs' ! i = ?bs1 ! i"
    by blast
  have same: "map (\<lambda>(k, r). ?h1 ! r) rest = map (\<lambda>(k, r). h ! r) rest"
    using Cons.prems(2) by (auto simp: nth_append)
  have f': "fold copyInto (x # rest) (bs, h) = (bs', h @ map (\<lambda>(k, r). h ! r) (x # rest))"
    by (simp add: x copyInto_simp f same)
  have len': "length bs' = length bs" using len by simp
  have new': "\<forall>j<length (x # rest). bs' ! nat (fst ((x # rest) ! j)) = length h + j"
  proof (intro allI impI)
    fix j assume j: "j < length (x # rest)"
    show "bs' ! nat (fst ((x # rest) ! j)) = length h + j"
    proof (cases j)
      case 0
      have "int (nat k) \<notin> fst ` set rest" using nk kr(2) by simp
      with old kr(3) have "bs' ! nat k = ?bs1 ! nat k" by simp
      also have "\<dots> = length h" using kr by (simp add: Array_set_def)
      finally show ?thesis using 0 by (simp add: x)
    next
      case (Suc j')
      with j new show ?thesis by simp
    qed
  qed
  have old': "\<forall>i<length bs. int i \<notin> fst ` set (x # rest) \<longrightarrow> bs' ! i = bs ! i"
  proof (intro allI impI)
    fix i assume i: "i < length bs" and ni: "int i \<notin> fst ` set (x # rest)"
    then have "int i \<noteq> k" and "int i \<notin> fst ` set rest" by (auto simp: x)
    with old i have "bs' ! i = ?bs1 ! i" by simp
    also have "\<dots> = bs ! i" using \<open>int i \<noteq> k\<close> by (auto simp: Array_set_def nth_list_update)
    finally show "bs' ! i = bs ! i" .
  qed
  from f' len' new' old' show ?case by blast
qed


text \<open>Reading a map of references through the store keeps its keys.\<close>

lemma deref_keys: "map fst (deref h buckets) = map fst buckets"
  by (induction buckets) (auto simp: deref_def)

lemma deref_max: "maxBucketNumber (deref h buckets) = maxBucketNumber buckets"
  by (simp add: maxBucketNumber_def deref_keys)

lemma deref_wf: "Map_wf (deref h buckets) = Map_wf buckets"
  by (simp add: Map_wf_def deref_keys)

lemma deref_get: "Map_get (deref h buckets) k = map_option ((!) h) (Map_get buckets k)"
  by (induction buckets) (auto simp: deref_def Map_get_def)

text \<open>
  What the store model returns for a non-empty map: the new store is the old one, then
  the empty sets of the fresh array, then one copy per entry of the map; an index
  without an entry keeps the empty set made for it, an index with an entry refers to
  the copy made for that entry.
\<close>

lemma toBucketSets_store_shape:
  assumes "Map_wf buckets"
    and "\<forall>(k, r)\<in>set buckets. 0 \<le> k \<and> k < maxArrayLength \<and> r < length h"
    and "buckets \<noteq> []" and "length buckets < argLimit"
  shows "\<exists>out. toBucketSets_store argLimit buckets h =
             Inr (out, h @ replicate (nat (maxBucketNumber buckets + 1)) {||}
                         @ map (\<lambda>(k, r). h ! r) buckets) \<and>
           length out = nat (maxBucketNumber buckets + 1) \<and>
           (\<forall>j<length buckets. out ! nat (fst (buckets ! j)) =
              length h + nat (maxBucketNumber buckets + 1) + j) \<and>
           (\<forall>i<length out. int i \<notin> fst ` set buckets \<longrightarrow> out ! i = length h + i)"
proof -
  let ?m = "nat (maxBucketNumber buckets + 1)"
  let ?bs0 = "[length h..<length h + ?m]" and ?h1 = "h @ replicate ?m {||}"
  from assms(1) have d: "distinct (map fst buckets)" by (simp add: Map_wf_def)
  have p: "\<forall>(k, r)\<in>set buckets. r < length ?h1 \<and> 0 \<le> k \<and> nat k < length ?bs0"
  proof (clarify)
    fix k r assume kr: "(k, r) \<in> set buckets"
    with assms(2) have "0 \<le> k" "r < length h" by auto
    moreover from kr have "k \<le> maxBucketNumber buckets" by (rule key_le_maxBucketNumber)
    ultimately show "r < length ?h1 \<and> 0 \<le> k \<and> nat k < length ?bs0" by simp
  qed
  from fold_copyInto [OF d p] obtain out where
    f: "fold copyInto buckets (?bs0, ?h1) = (out, ?h1 @ map (\<lambda>(k, r). ?h1 ! r) buckets)"
    and len: "length out = length ?bs0"
    and new: "\<forall>j<length buckets. out ! nat (fst (buckets ! j)) = length ?h1 + j"
    and old: "\<forall>i<length ?bs0. int i \<notin> fst ` set buckets \<longrightarrow> out ! i = ?bs0 ! i"
    by blast
  have same: "map (\<lambda>(k, r). ?h1 ! r) buckets = map (\<lambda>(k, r). h ! r) buckets"
    using assms(2) by (auto simp: nth_append)
  have "\<forall>k\<in>set (map fst buckets). k < maxArrayLength" using assms(2) by auto
  then have mx: "maxBucketNumber buckets < maxArrayLength"
    by (rule maxBucketNumber_less) (simp add: maxArrayLength_def)
  have "toBucketSets_store argLimit buckets h =
      Inr (out, ?h1 @ map (\<lambda>(k, r). h ! r) buckets)"
    using assms(3,4) mx maxBucketNumber_nonneg [of buckets] f
    by (simp add: toBucketSets_store_def Math_max_keys_def Array_length_def newSets_eq same)
  moreover have "length out = ?m" using len by simp
  moreover have "\<forall>j<length buckets. out ! nat (fst (buckets ! j)) = length h + ?m + j"
    using new by simp
  moreover have "\<forall>i<length out. int i \<notin> fst ` set buckets \<longrightarrow> out ! i = length h + i"
    using old len by simp
  ultimately show ?thesis by simp
qed


text \<open>The store model raises on the same maps as the model on values.\<close>

lemma toBucketSets_store_raises_iff:
  "(\<exists>e. toBucketSets_store argLimit buckets h = Inl e) \<longleftrightarrow>
     (\<exists>e. toBucketSets argLimit (deref h buckets) = Inl e)"
proof -
  have "(\<exists>e. toBucketSets_store argLimit buckets h = Inl e) \<longleftrightarrow>
      buckets \<noteq> [] \<and> (argLimit \<le> length buckets \<or> maxArrayLength \<le> maxBucketNumber buckets)"
    using maxBucketNumber_nonneg [of buckets]
    by (auto simp: toBucketSets_store_def Math_max_keys_def Array_length_def)
  then show ?thesis
    by (simp add: toBucketSets_raises_iff deref_max) (simp add: deref_def)
qed

text \<open>
  Claim C5: \<^verbatim>\<open>toBucketSets\<close> maps the empty sparse assignment to a sequence of length
  zero, and a non-empty one to a sequence of length \<open>max + 1\<close> for the largest bucket
  number \<open>max\<close> present. The sparse assignment is one on which neither call before the
  loop raises: its bucket numbers are non-negative and below \<open>2 ^ 32 - 1\<close>, so that
  \<open>max + 1\<close> is the length of an array, and it has fewer entries than \<open>argLimit\<close>, the
  number of arguments the engine takes in one call (the spec's range \<open>[0, 7]\<close> gives
  at most 8 entries and 9 arguments). An index absent from the input
  holds an empty set, an index present holds a set with the elements of that bucket.
  Every set of the result is an object made by this call: it is none of the objects
  that existed before (so none of the input's sets), no two indices share an object,
  and the objects of the input are as they were. Read through the store, the result
  is the dense sequence that \<open>toBucketSets\<close> computes on values.
\<close>

theorem toBucketSets_store_copies:
  assumes "Map_wf buckets"
    and "\<forall>(k, r)\<in>set buckets. 0 \<le> k \<and> k < maxArrayLength \<and> r < length h"
    and "length buckets < argLimit"
  shows "\<exists>out h'. toBucketSets_store argLimit buckets h = Inr (out, h') \<and>
     (buckets = [] \<longrightarrow> out = []) \<and>
     (buckets \<noteq> [] \<longrightarrow> length out = nat (Max (set (map fst buckets))) + 1) \<and>
     (\<forall>i<length out. h' ! (out ! i) =
        (case Map_get buckets (int i) of None \<Rightarrow> {||} | Some r \<Rightarrow> h ! r)) \<and>
     (\<forall>i<length out. length h \<le> out ! i \<and> out ! i < length h') \<and>
     distinct out \<and>
     take (length h) h' = h \<and>
     toBucketSets argLimit (deref h buckets) = Inr (map ((!) h') out)"
proof (cases "buckets = []")
  case True
  then show ?thesis by (simp add: toBucketSets_store_def toBucketSets_def deref_def)
next
  case False
  let ?m = "nat (maxBucketNumber buckets + 1)"
  let ?h' = "h @ replicate ?m {||} @ map (\<lambda>(k, r). h ! r) buckets"
  from assms(1) have d: "distinct (map fst buckets)" by (simp add: Map_wf_def)
  from toBucketSets_store_shape [OF assms(1,2) False assms(3)] obtain out where
    eq: "toBucketSets_store argLimit buckets h = Inr (out, ?h')"
    and len: "length out = ?m"
    and new: "\<forall>j<length buckets. out ! nat (fst (buckets ! j)) = length h + ?m + j"
    and old: "\<forall>i<length out. int i \<notin> fst ` set buckets \<longrightarrow> out ! i = length h + i"
    by blast
  have idx: "(out ! i = length h + i \<and> Map_get buckets (int i) = None) \<or>
      (\<exists>j<length buckets. fst (buckets ! j) = int i \<and> out ! i = length h + ?m + j \<and>
          Map_get buckets (int i) = Some (snd (buckets ! j)))" if i: "i < ?m" for i
  proof (cases "int i \<in> fst ` set buckets")
    case True
    then obtain r where "(int i, r) \<in> set buckets" by auto
    then obtain j where j: "j < length buckets" "buckets ! j = (int i, r)"
      by (auto simp: in_set_conv_nth)
    from new j have "out ! i = length h + ?m + j" by auto
    moreover from d j have "Map_get buckets (int i) = Some (snd (buckets ! j))"
      by (simp add: Map_get_def) (metis nth_mem)
    ultimately show ?thesis using j by auto
  next
    case False
    then have "Map_get buckets (int i) = None"
      by (simp add: Map_get_def map_of_eq_None_iff)
    with old i len False show ?thesis by simp
  qed
  have content: "?h' ! (out ! i) =
      (case Map_get buckets (int i) of None \<Rightarrow> {||} | Some r \<Rightarrow> h ! r)" if i: "i < ?m" for i
    using idx [OF i] i
  proof (elim disjE conjE exE)
    assume a: "out ! i = length h + i" "Map_get buckets (int i) = None"
    have "?h' ! (length h + i) = {||}" using i by (simp add: nth_append)
    with a show ?thesis by simp
  next
    fix j assume b: "j < length buckets" "out ! i = length h + ?m + j"
      "Map_get buckets (int i) = Some (snd (buckets ! j))"
    have "?h' ! (length h + ?m + j) = map (\<lambda>(k, r). h ! r) buckets ! j"
      by (simp add: nth_append)
    also have "\<dots> = h ! snd (buckets ! j)" using b(1) by (simp add: case_prod_beta)
    finally show ?thesis using b by simp
  qed
  have fresh: "length h \<le> out ! i \<and> out ! i < length ?h'" if i: "i < ?m" for i
    using idx [OF i] i by auto
  have "out ! i \<noteq> out ! i'" if "i < ?m" "i' < ?m" "i \<noteq> i'" for i i'
    using idx [OF that(1)] idx [OF that(2)] that by auto
  then have dist: "distinct out" by (simp add: distinct_conv_nth len)
  have keep: "take (length h) ?h' = h" by simp
  have val: "toBucketSets argLimit (deref h buckets) = Inr (map ((!) ?h') out)"
  proof -
    from False have ne: "deref h buckets \<noteq> []" by (simp add: deref_def)
    have l: "length (deref h buckets) < argLimit" using assms(3) by (simp add: deref_def)
    have "\<forall>k\<in>set (map fst buckets). k < maxArrayLength" using assms(2) by auto
    then have "maxBucketNumber buckets < maxArrayLength"
      by (rule maxBucketNumber_less) (simp add: maxArrayLength_def)
    then have mx: "maxBucketNumber (deref h buckets) < maxArrayLength"
      by (simp add: deref_max)
    have wf: "Map_wf (deref h buckets)" using assms(1) by (simp add: deref_wf)
    have "fold putBucket (deref h buckets) (replicate ?m {||}) = map ((!) ?h') out"
    proof (rule nth_equalityI)
      show "length (fold putBucket (deref h buckets) (replicate ?m {||})) =
          length (map ((!) ?h') out)"
        by (simp add: len)
      fix i assume "i < length (fold putBucket (deref h buckets) (replicate ?m {||}))"
      then have i: "i < ?m" by simp
      from filled_nth [OF wf i]
      have "fold putBucket (deref h buckets) (replicate ?m {||}) ! i =
          (case Map_get buckets (int i) of None \<Rightarrow> {||} | Some r \<Rightarrow> h ! r)"
        by (simp add: deref_get split: option.splits)
      with content [OF i] i len
      show "fold putBucket (deref h buckets) (replicate ?m {||}) ! i = map ((!) ?h') out ! i"
        by simp
    qed
    with toBucketSets_returns [OF ne l mx] show ?thesis by (simp add: deref_max)
  qed
  have keys: "\<forall>k\<in>set (map fst buckets). 0 \<le> k" using assms(2) by auto
  have "0 \<le> Max (set (map fst buckets))"
    using maxBucketNumber_nonneg [of buckets] maxBucketNumber_keys [OF False keys] by simp
  then have length: "length out = nat (Max (set (map fst buckets))) + 1"
    by (simp add: len maxBucketNumber_keys [OF False keys] nat_add_distrib)
  have c': "\<forall>i<length out. ?h' ! (out ! i) =
        (case Map_get buckets (int i) of None \<Rightarrow> {||} | Some r \<Rightarrow> h ! r)"
    using content len by simp
  have f': "\<forall>i<length out. length h \<le> out ! i \<and> out ! i < length ?h'"
    using fresh len by simp
  from eq False length c' f' dist keep val show ?thesis by blast
qed

theorem toBucketSets_store_copies_witness:
  "Map_wf refsExample \<and>
   list_all (\<lambda>(k, r). 0 \<le> k \<and> k < maxArrayLength \<and> r < length storeExample) refsExample \<and>
   length refsExample < 65536 \<and>
   (\<exists>out h'. toBucketSets_store 65536 refsExample storeExample = Inr (out, h') \<and>
     (refsExample = [] \<longrightarrow> out = []) \<and>
     (refsExample \<noteq> [] \<longrightarrow> length out = nat (Max (set (map fst refsExample))) + 1) \<and>
     (\<forall>i<length out. h' ! (out ! i) =
        (case Map_get refsExample (int i) of None \<Rightarrow> {||} | Some r \<Rightarrow> storeExample ! r)) \<and>
     (\<forall>i<length out. length storeExample \<le> out ! i \<and> out ! i < length h') \<and>
     distinct out \<and>
     take (length storeExample) h' = storeExample \<and>
     toBucketSets 65536 (deref storeExample refsExample) = Inr (map ((!) h') out))"
proof -
  have h1: "Map_wf refsExample" by (simp add: Map_wf_def refsExample_def)
  have h2: "\<forall>(k, r)\<in>set refsExample.
      0 \<le> k \<and> k < maxArrayLength \<and> r < length storeExample"
    by (simp add: refsExample_def storeExample_def maxArrayLength_def)
  have h3: "length refsExample < 65536" by (simp add: refsExample_def)
  from h2 have h2': "list_all
      (\<lambda>(k, r). 0 \<le> k \<and> k < maxArrayLength \<and> r < length storeExample) refsExample"
    by (simp only: list_all_iff)
  show ?thesis
    by (rule conjI [OF h1 conjI [OF h2' conjI [OF h3 toBucketSets_store_copies [OF h1 h2 h3]]]])
qed

subsection \<open>Applying \<^verbatim>\<open>toBucketSets\<close> to its own result\<close>

text \<open>A dense form that \<^verbatim>\<open>toBucketSets\<close> returned has the length of an array.\<close>

lemma toBucketSets_result_length:
  assumes "toBucketSets argLimit buckets = Inr dense"
  shows "int (length dense) \<le> maxArrayLength"
proof (cases "buckets = []")
  case True
  with assms show ?thesis by (simp add: toBucketSets_def maxArrayLength_def)
next
  case False
  from toBucketSets_InrD(2,3) [OF assms False] maxBucketNumber_nonneg [of buckets]
  show ?thesis by simp
qed

text \<open>
  Claim C9: \<^verbatim>\<open>toBucketSets\<close> is idempotent. Its result is an array and its parameter a
  map, so the result is handed back as the map from every index to the set at that
  index. For every sparse assignment on which \<^verbatim>\<open>toBucketSets\<close> returns, also the empty
  one, the second application returns the same dense sequence; the dense sequence has
  to be shorter than \<open>argLimit\<close>, since the second application passes all its indices as
  arguments of one call.
\<close>

theorem toBucketSets_twice:
  assumes "toBucketSets argLimit buckets = Inr dense" and "length dense < argLimit"
  shows "toBucketSets argLimit (entries dense) = Inr dense"
  using assms(2) toBucketSets_result_length [OF assms(1)] by (rule toBucketSets_entries)

theorem toBucketSets_twice_witness:
  "toBucketSets 65536 [] = Inr [] \<and> length ([] :: Flashcard fset list) < 65536 \<and>
   toBucketSets 65536 (entries []) = Inr [] \<and>
   toBucketSets 65536 sparseExample = Inr [{|cardQ1|}, {||}, {|cardQ2|}] \<and>
   length [{|cardQ1|}, {||}, {|cardQ2|}] < 65536 \<and>
   toBucketSets 65536 (entries [{|cardQ1|}, {||}, {|cardQ2|}]) =
     Inr [{|cardQ1|}, {||}, {|cardQ2|}]"
proof -
  have e1: "toBucketSets 65536 [] = Inr []" by (simp add: toBucketSets_def)
  have e2: "length ([] :: Flashcard fset list) < 65536" by simp
  have r3: "replicate 3 x = [x, x, x]" for x :: "Flashcard fset"
    by (simp add: numeral_3_eq_3)
  have s1: "toBucketSets 65536 sparseExample = Inr [{|cardQ1|}, {||}, {|cardQ2|}]"
    by (simp add: toBucketSets_def sparseExample_def Math_max_keys_def maxBucketNumber_def
        Array_length_def maxArrayLength_def Array_set_def putBucket_def r3)
  have s2: "length [{|cardQ1|}, {||}, {|cardQ2|}] < 65536" by simp
  note a = toBucketSets_twice [OF e1 e2]
  note b = toBucketSets_twice [OF s1 s2]
  show ?thesis by (rule conjI [OF e1 conjI [OF e2 conjI [OF a conjI [OF s1 conjI [OF s2 b]]]]])
qed

end
